theory Spec2Isabelle
  imports Complex_Main "HOL-Library.Sublist"
begin

section \<open>bundrop: a one-file HTTP server behind a random path\<close>

text \<open>
  The development follows \<^verbatim>\<open>src/index.ts\<close>. Strings are byte strings (a JavaScript
  string is taken in its UTF-8 encoding), the in-memory \<^verbatim>\<open>Map\<close> is a partial function, the
  callbacks that the runtime runs one at a time are the events of a step function, and what
  the program reads from its environment (the file system, the random draw, the requests,
  the subprocess) is an argument of the function that reads it.
\<close>

subsection \<open>The connection log: \<^verbatim>\<open>clientMap\<close> and \<^verbatim>\<open>logRequest\<close>\<close>

record ClientInfo =
  ip :: string
  ua :: string
  count :: nat

type_synonym clientMap = "string \<rightharpoonup> ClientInfo"

text \<open>The key of the map is the template string \<^verbatim>\<open>`${ip}::${ua}`\<close>.\<close>

definition clientKey :: "string \<Rightarrow> string \<Rightarrow> string" where
  "clientKey ipStr uaStr = ipStr @ ''::'' @ uaStr"

text \<open>
  \<^verbatim>\<open>logRequest\<close> looks the key up, writes back either the existing entry with its count
  raised by one or a fresh entry with count 1, and prints a line that ends in
  \<^verbatim>\<open>connection #${info.count}\<close>. The model returns the new map and the entry whose count is
  printed.
\<close>

definition logRequest :: "clientMap \<Rightarrow> string \<Rightarrow> string \<Rightarrow> clientMap \<times> ClientInfo" where
  "logRequest m ipStr uaStr =
     (let key = clientKey ipStr uaStr;
          info = (case m key of
                    Some existing \<Rightarrow> existing\<lparr>count := count existing + 1\<rparr>
                  | None \<Rightarrow> \<lparr>ip = ipStr, ua = uaStr, count = 1\<rparr>)
      in (m(key \<mapsto> info), info))"

text \<open>The number of requests the map has counted under a key (0 when the key is not there).\<close>

definition hits :: "clientMap \<Rightarrow> string \<Rightarrow> nat" where
  "hits m key = (case m key of None \<Rightarrow> 0 | Some info \<Rightarrow> count info)"

subsection \<open>Numbers as text\<close>

text \<open>
  \<^verbatim>\<open>fileSize.toString()\<close> on a non-negative integer below \<open>10\<^sup>2\<^sup>1\<close> prints its decimal
  digits, most significant first, with no leading zero (\<^verbatim>\<open>"0"\<close> for zero).
\<close>

definition digit_char :: "nat \<Rightarrow> char" where
  "digit_char d = ''0123456789'' ! d"

fun digits :: "nat \<Rightarrow> string" where
  "digits n = (if n < 10 then [digit_char n] else digits (n div 10) @ [digit_char (n mod 10)])"

declare digits.simps [simp del]

text \<open>
  \<^verbatim>\<open>x.toFixed(2)\<close> for \<open>0 \<le> x < 10\<^sup>2\<^sup>1\<close>, after ECMAScript's Number.prototype.toFixed: take
  the integer \<open>n\<close> for which \<open>n / 100 - x\<close> is closest to zero, the larger one when two are
  equally close; write its decimal digits, padded with zeros on the left to at least three
  characters; put the point before the last two. The argument is the exact quotient: a
  file size is an integer-valued double and \<open>1024 * 1024\<close> is a power of two, so the
  division \<^verbatim>\<open>fileSize / (1024 * 1024)\<close> does not round.
\<close>

definition toFixed2 :: "rat \<Rightarrow> string" where
  "toFixed2 x =
     (let n = nat \<lfloor>x * 100 + 1 / 2\<rfloor>;
          m = digits n;
          k = length m;
          m' = (if k \<le> 2 then replicate (3 - k) (CHR ''0'') @ m else m);
          k' = length m'
      in take (k' - 2) m' @ ''.'' @ drop (k' - 2) m')"

subsection \<open>The served file\<close>



record config =
  filePath :: string
  fileName :: string
  urlPath :: string
  fileSize :: nat

text \<open>
  The access token is \<^verbatim>\<open>Math.random().toString(36).substring(2, 7)\<close>. A draw of
  \<^verbatim>\<open>Math.random()\<close> is a number \<open>0 \<le> x < 1\<close>; \<^verbatim>\<open>toString(36)\<close> prints \<^verbatim>\<open>"0"\<close> for zero and
  otherwise \<^verbatim>\<open>"0."\<close> followed by the base-36 digits of the fraction, the last of them not
  zero. The draw is given here by those digits (none for zero): \<^verbatim>\<open>0.5\<close> is \<open>[18]\<close> and
  prints as \<^verbatim>\<open>"0.i"\<close>.
\<close>

definition digit36 :: "nat \<Rightarrow> char" where
  "digit36 d = ''0123456789abcdefghijklmnopqrstuvwxyz'' ! d"

definition toString36 :: "nat list \<Rightarrow> string" where
  "toString36 ds = (if ds = [] then ''0'' else ''0.'' @ map digit36 ds)"

text \<open>
  \<^verbatim>\<open>s.substring(a, b)\<close>: both indices are clamped to the length of the string and swapped
  when the first is the larger.
\<close>

definition substring :: "string \<Rightarrow> nat \<Rightarrow> nat \<Rightarrow> string" where
  "substring s a b =
     (let a' = min a (length s); b' = min b (length s);
          lo = min a' b'; hi = max a' b'
      in take (hi - lo) (drop lo s))"

definition randomUrlPath :: "nat list \<Rightarrow> string" where
  "randomUrlPath draw = substring (toString36 draw) 2 7"


subsection \<open>The request handler\<close>

text \<open>
  Of a request the handler reads the path of its URL, what \<^verbatim>\<open>server.requestIP(req)\<close>
  gives (\<^verbatim>\<open>null\<close>, or an object with the fields \<^verbatim>\<open>address\<close>, \<^verbatim>\<open>family\<close> and \<^verbatim>\<open>port\<close>) and
  the \<^verbatim>\<open>user-agent\<close> header (absent when the request has none). It never reads the method.
\<close>

record socketAddress =
  address :: string
  family :: string
  port :: nat

record request =
  pathname :: string
  requestIP :: "socketAddress option"
  userAgent :: "string option"

text \<open>
  The handler calls \<^verbatim>\<open>.toString()\<close> on that object. The object has no \<^verbatim>\<open>toString\<close> of its
  own, so the call is \<^verbatim>\<open>Object.prototype.toString\<close>, which gives the same text for every
  such object and reads none of its fields.
\<close>

definition objectToString :: "socketAddress \<Rightarrow> string" where
  "objectToString obj = ''[object Object]''"

text \<open>
  A response body is a string or \<^verbatim>\<open>Bun.file(path)\<close>, a reference that the runtime reads
  when it sends the response. A response made without a status has status 200.
\<close>

datatype responseBody = BunFile string | Text string

record response =
  status :: nat
  headers :: "(string \<times> string) list"
  body :: responseBody

text \<open>\<^verbatim>\<open>v || "unknown"\<close>: the default replaces \<^verbatim>\<open>null\<close>, \<^verbatim>\<open>undefined\<close> and the empty string.\<close>

definition orUnknown :: "string option \<Rightarrow> string" where
  "orUnknown v = (case v of None \<Rightarrow> ''unknown'' | Some s \<Rightarrow> if s = [] then ''unknown'' else s)"

text \<open>The page is a template literal: five fixed pieces around the four interpolations.\<close>

definition html_doctype :: string where
  \<open>html_doctype = concat
    [''\<newline>'',
     ''<!DOCTYPE html>\<newline>'',
     ''<html lang="en">\<newline>'',
     ''<head>\<newline>'',
     ''    <meta charset="UTF-8">\<newline>'',
     ''    <meta name="viewport" content="width=device-width, initial-scale=1.0">\<newline>'',
     ''    <title>Download '']\<close>

definition html_style :: string where
  \<open>html_style = concat
    [''</title>\<newline>'',
     ''    <style>\<newline>'',
     ''        * {\<newline>'',
     ''            margin: 0;\<newline>'',
     ''            padding: 0;\<newline>'',
     ''            box-sizing: border-box;\<newline>'',
     ''        }\<newline>'',
     ''        \<newline>'',
     ''        body {\<newline>'',
     ''            font-family: -apple-system, BlinkMacSystemFont, 'Segoe UI', Roboto, sans-serif;\<newline>'',
     ''            background: linear-gradient(135deg, #667eea 0%, #764ba2 100%);\<newline>'',
     ''            min-height: 100vh;\<newline>'',
     ''            display: flex;\<newline>'',
     ''            align-items: center;\<newline>'',
     ''            justify-content: center;\<newline>'',
     ''            padding: 20px;\<newline>'',
     ''        }\<newline>'',
     ''        \<newline>'',
     ''        .container {\<newline>'',
     ''            background: rgba(255, 255, 255, 0.95);\<newline>'',
     ''            backdrop-filter: blur(10px);\<newline>'',
     ''            border-radius: 20px;\<newline>'',
     ''            padding: 40px;\<newline>'',
     ''            box-shadow: 0 20px 40px rgba(0, 0, 0, 0.1);\<newline>'',
     ''            text-align: center;\<newline>'',
     ''            max-width: 500px;\<newline>'',
     ''            width: 100%;\<newline>'',
     ''        }\<newline>'',
     ''        \<newline>'',
     ''        .file-icon {\<newline>'',
     ''            width: 80px;\<newline>'',
     ''            height: 80px;\<newline>'',
     ''            background: linear-gradient(135deg, #4facfe 0%, #00f2fe 100%);\<newline>'',
     ''            border-radius: 20px;\<newline>'',
     ''            display: flex;\<newline>'',
     ''            align-items: center;\<newline>'',
     ''            justify-content: center;\<newline>'',
     ''            margin: 0 auto 30px;\<newline>'',
     ''            font-size: 32px;\<newline>'',
     ''            color: white;\<newline>'',
     ''        }\<newline>'',
     ''        \<newline>'',
     ''        .file-name {\<newline>'',
     ''            font-size: 24px;\<newline>'',
     ''            font-weight: 600;\<newline>'',
     ''            color: #2d3748;\<newline>'',
     ''            margin-bottom: 10px;\<newline>'',
     ''            word-break: break-all;\<newline>'',
     ''        }\<newline>'',
     ''        \<newline>'',
     ''        .file-size {\<newline>'',
     ''            color: #718096;\<newline>'',
     ''            font-size: 16px;\<newline>'',
     ''            margin-bottom: 30px;\<newline>'',
     ''        }\<newline>'',
     ''        \<newline>'',
     ''        .download-btn {\<newline>'',
     ''            background: linear-gradient(135deg, #667eea 0%, #764ba2 100%);\<newline>'',
     ''            color: white;\<newline>'',
     ''            border: none;\<newline>'',
     ''            padding: 16px 32px;\<newline>'',
     ''            border-radius: 12px;\<newline>'',
     ''            font-size: 18px;\<newline>'',
     ''            font-weight: 600;\<newline>'',
     ''            cursor: pointer;\<newline>'',
     ''            text-decoration: none;\<newline>'',
     ''            display: inline-block;\<newline>'',
     ''            transition: transform 0.2s, box-shadow 0.2s;\<newline>'',
     ''            margin-bottom: 30px;\<newline>'',
     ''        }\<newline>'',
     ''        \<newline>'',
     ''        .download-btn:hover {\<newline>'',
     ''            transform: translateY(-2px);\<newline>'',
     ''            box-shadow: 0 10px 25px rgba(102, 126, 234, 0.3);\<newline>'',
     ''        }\<newline>'',
     ''        \<newline>'',
     ''        .footer {\<newline>'',
     ''            color: #a0aec0;\<newline>'',
     ''            font-size: 14px;\<newline>'',
     ''            margin-top: 20px;\<newline>'',
     ''        }\<newline>'',
     ''        \<newline>'',
     ''        .footer a {\<newline>'',
     ''            color: #667eea;\<newline>'',
     ''            text-decoration: none;\<newline>'',
     ''            font-weight: 500;\<newline>'',
     ''        }\<newline>'',
     ''        \<newline>'',
     ''        .footer a:hover {\<newline>'',
     ''            text-decoration: underline;\<newline>'',
     ''        }\<newline>'',
     ''    </style>\<newline>'',
     ''</head>\<newline>'',
     ''<body>\<newline>'',
     ''    <div class="container">\<newline>'',
     ''        <div class="file-icon">'' @ [CHR 0xF0, CHR 0x9F, CHR 0x93, CHR 0x81] @ ''</div>\<newline>'',
     ''        <div class="file-name">'']\<close>

definition html_size :: string where
  \<open>html_size = concat
    [''</div>\<newline>'',
     ''        <div class="file-size">'']\<close>

definition html_link :: string where
  \<open>html_link = concat
    ['' MB</div>\<newline>'',
     ''        <a href="/download/'']\<close>

definition html_footer :: string where
  \<open>html_footer = concat
    [''" class="download-btn">Download File</a>\<newline>'',
     ''        <div class="footer">\<newline>'',
     ''            Powered by <a href="https://github.com/jamonholmgren/bundrop" target="_blank">bundrop</a>\<newline>'',
     ''        </div>\<newline>'',
     ''    </div>\<newline>'',
     ''</body>\<newline>'',
     ''</html>'']\<close>

definition fileSizeMB :: "config \<Rightarrow> string" where
  "fileSizeMB cfg = toFixed2 (of_nat (fileSize cfg) / (1024 * 1024))"

definition html :: "config \<Rightarrow> string" where
  "html cfg =
     html_doctype @ fileName cfg @ html_style @ fileName cfg @ html_size @ fileSizeMB cfg
       @ html_link @ urlPath cfg @ html_footer"

definition notFoundText :: string where
  "notFoundText =
     ''Hi there! Looks like you landed on the main page.\<newline>''
     @ ''To get your file, just make sure to use the special link we gave you.\<newline>''"

text \<open>
  \<^verbatim>\<open>fetch\<close>: log the request, then answer by the path, the download route first. The
  result is the new map, the logged entry and the response.
\<close>

definition fetch :: "config \<Rightarrow> clientMap \<Rightarrow> request \<Rightarrow> clientMap \<times> ClientInfo \<times> response" where
  \<open>fetch cfg m req =
     (let ipStr = orUnknown (map_option objectToString (requestIP req));
          uaStr = orUnknown (userAgent req);
          (m', info) = logRequest m ipStr uaStr
      in if pathname req = ''/download/'' @ urlPath cfg
         then (m', info,
               \<lparr>status = 200,
                headers =
                  [(''Content-Type'', ''application/octet-stream''),
                   (''Content-Disposition'', ''attachment; filename="'' @ fileName cfg @ ''"''),
                   (''Content-Length'', digits (fileSize cfg))],
                body = BunFile (filePath cfg)\<rparr>)
         else if pathname req = ''/'' @ urlPath cfg
         then (m', info,
               \<lparr>status = 200, headers = [(''Content-Type'', ''text/html'')],
                body = Text (html cfg)\<rparr>)
         else (m', info, \<lparr>status = 404, headers = [], body = Text notFoundText\<rparr>))\<close>

text \<open>The server handles the requests one after the other, each on the map the last one left.\<close>

fun serve :: "config \<Rightarrow> clientMap \<Rightarrow> request list \<Rightarrow> clientMap \<times> (ClientInfo \<times> response) list" where
  "serve cfg m [] = (m, [])"
| "serve cfg m (req # reqs) =
     (case fetch cfg m req of
        (m', info, resp) \<Rightarrow> (case serve cfg m' reqs of (m'', out) \<Rightarrow> (m'', (info, resp) # out)))"


text \<open>The key under which \<^verbatim>\<open>fetch\<close> logs a request.\<close>

definition requestKey :: "request \<Rightarrow> string" where
  "requestKey req =
     clientKey (orUnknown (map_option objectToString (requestIP req))) (orUnknown (userAgent req))"

subsection \<open>Reading numbers back\<close>





subsection \<open>The tunnel: \<^verbatim>\<open>runCloudFlaredTunnel\<close>\<close>

text \<open>
  The pattern \<^verbatim>\<open>/https:\/\/[a-zA-Z0-9-]+\.trycloudflare\.com/\<close>. At a given start the
  match is decided without backtracking: the point is not in the class, so the label is
  the whole run of class characters after \<^verbatim>\<open>https://\<close>, it must not be empty, and
  \<^verbatim>\<open>.trycloudflare.com\<close> must follow it. \<^verbatim>\<open>String.prototype.match\<close> without the \<^verbatim>\<open>g\<close> flag
  gives the match at the leftmost start that has one, \<^verbatim>\<open>null\<close> when there is none.
\<close>

definition is_label_char :: "char \<Rightarrow> bool" where
  "is_label_char c =
     (let n = (of_char c :: nat)
      in (97 \<le> n \<and> n \<le> 122) \<or> (65 \<le> n \<and> n \<le> 90) \<or> (48 \<le> n \<and> n \<le> 57) \<or> c = CHR ''-'')"

definition match_here :: "string \<Rightarrow> string option" where
  "match_here s =
     (if prefix ''https://'' s
      then (let rest = drop 8 s;
                label = takeWhile is_label_char rest;
                after = dropWhile is_label_char rest
            in if label \<noteq> [] \<and> prefix ''.trycloudflare.com'' after
               then Some (''https://'' @ label @ ''.trycloudflare.com'')
               else None)
      else None)"

fun urlMatch :: "string \<Rightarrow> string option" where
  "urlMatch [] = None"
| "urlMatch (c # cs) = (case match_here (c # cs) of Some url \<Rightarrow> Some url | None \<Rightarrow> urlMatch cs)"

text \<open>
  The promise body runs two readers, a timer and a continuation of \<^verbatim>\<open>proc.exited\<close>. The
  runtime runs one callback at a time, so a run is a sequence of events, each handled to
  the end before the next: a reader got a chunk (as the text \<^verbatim>\<open>TextDecoder\<close> made of it),
  a reader got \<^verbatim>\<open>done\<close>, a read threw, the 30000 ms timer fired, the subprocess exited.
  The port only goes into the arguments of the subprocess, and the lines printed in debug
  mode change nothing else: both are left out.
\<close>

datatype stream = Stdout | Stderr

datatype event =
    Chunk stream string
  | Done stream
  | ReadError stream
  | Timeout
  | Exited int

text \<open>
  The subprocess, as far as this function acts on it: it runs, it has exited by itself
  with a code, or it was running when \<^verbatim>\<open>proc.kill()\<close> was called. \<^verbatim>\<open>proc.kill()\<close> on a subprocess
  that has exited does nothing to it.
\<close>

datatype process = Running | ExitedByItself int | Killed

text \<open>
  The state: the variables \<^verbatim>\<open>output\<close> and \<^verbatim>\<open>urlFound\<close>; the promise (\<open>None\<close> while it is
  pending, then the value it was resolved with: \<open>Some url\<close> or \<open>None\<close> for \<^verbatim>\<open>null\<close>); which
  reader loops still run; the subprocess; the number of calls of \<^verbatim>\<open>proc.kill()\<close>; the lines
  written with \<^verbatim>\<open>console.error\<close>.
\<close>

record tunnel =
  "output" :: string
  urlFound :: bool
  settled :: "string option option"
  reading :: "stream \<Rightarrow> bool"
  proc :: process
  kills :: nat
  errors :: "string list"

definition init :: tunnel where
  "init = \<lparr>output = [], urlFound = False, settled = None, reading = (\<lambda>_. True),
           proc = Running, kills = 0, errors = []\<rparr>"

text \<open>\<^verbatim>\<open>resolve(v)\<close> settles a pending promise and does nothing to a settled one.\<close>

definition resolve :: "string option \<Rightarrow> tunnel \<Rightarrow> tunnel" where
  "resolve v s = (if settled s = None then s\<lparr>settled := Some v\<rparr> else s)"

definition kill :: "tunnel \<Rightarrow> tunnel" where
  "kill s = s\<lparr>kills := kills s + 1, proc := (if proc s = Running then Killed else proc s)\<rparr>"

text \<open>
  One turn of \<^verbatim>\<open>readStdout\<close> or \<^verbatim>\<open>readStderr\<close> (the two bodies are the same, and both
  append to the one \<^verbatim>\<open>output\<close>). A reader that has returned reads no more chunks.
\<close>

definition readChunk :: "stream \<Rightarrow> string \<Rightarrow> tunnel \<Rightarrow> tunnel" where
  "readChunk st chunk s =
     (if \<not> reading s st then s
      else let s' = s\<lparr>output := output s @ chunk\<rparr>
           in case urlMatch (output s') of
                Some url \<Rightarrow>
                  if \<not> urlFound s'
                  then resolve (Some url) (s'\<lparr>urlFound := True, reading := (reading s')(st := False)\<rparr>)
                  else s'
              | None \<Rightarrow> s')"

definition stopReading :: "stream \<Rightarrow> tunnel \<Rightarrow> tunnel" where
  "stopReading st s = s\<lparr>reading := (reading s)(st := False)\<rparr>"

definition onTimeout :: "tunnel \<Rightarrow> tunnel" where
  "onTimeout s =
     (if \<not> urlFound s
      then resolve None (kill (s\<lparr>errors := errors s @ [''Timeout waiting for CloudFlare tunnel URL'']\<rparr>))
      else s)"

definition onExited :: "int \<Rightarrow> tunnel \<Rightarrow> tunnel" where
  "onExited code s =
     (let s' = s\<lparr>proc := (if proc s = Running then ExitedByItself code else proc s)\<rparr>
      in if \<not> urlFound s'
         then resolve None (s'\<lparr>errors := errors s' @ [''CloudFlare tunnel process exited unexpectedly'']\<rparr>)
         else s')"

fun handle :: "tunnel \<Rightarrow> event \<Rightarrow> tunnel" where
  "handle s (Chunk st chunk) = readChunk st chunk s"
| "handle s (Done st) = stopReading st s"
| "handle s (ReadError st) = stopReading st s"
| "handle s Timeout = onTimeout s"
| "handle s (Exited code) = onExited code s"

definition run :: "tunnel \<Rightarrow> event list \<Rightarrow> tunnel" where
  "run s evs = foldl handle s evs"

text \<open>
  The value the caller awaits: \<^verbatim>\<open>null\<close> at once when \<^verbatim>\<open>Bun.spawn\<close> throws (the \<^verbatim>\<open>catch\<close>),
  otherwise the value of the promise, if the events settle it.
\<close>

definition runCloudFlaredTunnel :: "bool \<Rightarrow> event list \<Rightarrow> string option option" where
  "runCloudFlaredTunnel spawned evs = (if spawned then settled (run init evs) else Some None)"

text \<open>
  To speak of what the readers have read: a sequence of events without the timeout and
  without an exit, and the text of its chunks in the order of arrival, where a chunk
  counts when the reader of its stream still runs (it stops at \<^verbatim>\<open>done\<close> and at a read
  error).
\<close>

fun noTimeoutOrExit :: "event list \<Rightarrow> bool" where
  "noTimeoutOrExit [] = True"
| "noTimeoutOrExit (Timeout # evs) = False"
| "noTimeoutOrExit (Exited code # evs) = False"
| "noTimeoutOrExit (e # evs) = noTimeoutOrExit evs"

fun received :: "(stream \<Rightarrow> bool) \<Rightarrow> event list \<Rightarrow> string" where
  "received rd [] = []"
| "received rd (Chunk st chunk # evs) = (if rd st then chunk @ received rd evs else received rd evs)"
| "received rd (Done st # evs) = received (rd(st := False)) evs"
| "received rd (ReadError st # evs) = received (rd(st := False)) evs"
| "received rd (e # evs) = received rd evs"

text \<open>What holds of every state that a run from the initial state reaches.\<close>

definition reachable_inv :: "tunnel \<Rightarrow> bool" where
  "reachable_inv s =
     ((settled s = None) = (\<not> urlFound s \<and> proc s = Running)
      \<and> (settled s = None \<longrightarrow> kills s = 0)
      \<and> (\<forall>url. settled s = Some (Some url) \<longrightarrow> urlFound s \<and> kills s = 0 \<and> proc s \<noteq> Killed))"

section \<open>Properties\<close>

subsection \<open>The connection log\<close>

lemma clientKey_shift: "clientKey (a @ ''::'' @ b) c = clientKey a (b @ ''::'' @ c)"
  by (simp add: clientKey_def)

text \<open>
  Claim C10. The key \<^verbatim>\<open>`${ip}::${ua}`\<close> does not determine the pair: the clients
  \<^verbatim>\<open>("a::b", "c")\<close> and \<^verbatim>\<open>("a", "b::c")\<close> differ and have the same key, so a request of the
  second after one of the first finds the entry of the first, is counted as its second
  request, and the map holds a single entry for both.
\<close>

theorem clientKey_collision:
  "(''a::b'', ''c'') \<noteq> (''a'', ''b::c'')
   \<and> clientKey ''a::b'' ''c'' = clientKey ''a'' ''b::c''
   \<and> (case logRequest Map.empty ''a::b'' ''c'' of
        (m1, info1) \<Rightarrow>
          (case logRequest m1 ''a'' ''b::c'' of
             (m2, info2) \<Rightarrow>
               count info1 = 1 \<and> count info2 = 2 \<and> ip info2 = ''a::b'' \<and> ua info2 = ''c''
               \<and> dom m2 = {''a::b::c''}))"
  by (simp add: clientKey_def logRequest_def Let_def)

lemma hits_logRequest:
  "hits (fst (logRequest m a u)) k = hits m k + (if k = clientKey a u then 1 else 0)"
  by (simp add: logRequest_def hits_def Let_def split: option.splits)

lemma count_logRequest: "count (snd (logRequest m a u)) = hits m (clientKey a u) + 1"
  by (simp add: logRequest_def hits_def Let_def split: option.splits)

lemma fst_fetch:
  "fst (fetch cfg m req)
   = fst (logRequest m (orUnknown (map_option objectToString (requestIP req))) (orUnknown (userAgent req)))"
  by (simp add: fetch_def Let_def split: prod.splits)

lemma info_fetch:
  "fst (snd (fetch cfg m req))
   = snd (logRequest m (orUnknown (map_option objectToString (requestIP req))) (orUnknown (userAgent req)))"
  by (simp add: fetch_def Let_def split: prod.splits)

lemma serve_key_counts:
  "map (\<lambda>(r, p). count (fst p)) (filter (\<lambda>(r, p). requestKey r = k) (zip reqs (snd (serve cfg m reqs))))
   = [hits m k + 1 ..< hits m k + 1 + length (filter (\<lambda>r. requestKey r = k) reqs)]"
proof (induction reqs arbitrary: m)
  case Nil
  then show ?case by simp
next
  case (Cons r rs)
  obtain m' info resp where f: "fetch cfg m r = (m', info, resp)"
    by (cases "fetch cfg m r") auto
  have s: "snd (serve cfg m (r # rs)) = (info, resp) # snd (serve cfg m' rs)"
    using f by (simp split: prod.splits)
  have m': "hits m' k = hits m k + (if k = requestKey r then 1 else 0)"
    using fst_fetch [of cfg m r] f hits_logRequest [of m _ _ k] by (simp add: requestKey_def)
  have c: "count info = hits m (requestKey r) + 1"
    using info_fetch [of cfg m r] f count_logRequest by (simp add: requestKey_def)
  note ih = Cons.IH [of m']
  show ?case
  proof (cases "requestKey r = k")
    case True
    have u: "[hits m k + 1 ..< hits m k + 1 + length (filter (\<lambda>r. requestKey r = k) (r # rs))]
             = (hits m k + 1) # [hits m' k + 1 ..< hits m' k + 1 + length (filter (\<lambda>r. requestKey r = k) rs)]"
      using m' True by (simp add: upt_conv_Cons del: upt_Suc)
    show ?thesis unfolding s u using c ih True by (simp del: upt_Suc)
  next
    case False
    then have "hits m' k = hits m k" using m' by auto
    then show ?thesis unfolding s using ih False by (simp del: upt_Suc)
  qed
qed

text \<open>
  What the log does for every request, on whichever route: the count under the key of the
  request goes up by exactly one and every other count stays; the printed count is the new
  count; and of the requests served since the start, those with one key have the printed
  counts \<open>1, 2, ..., N\<close> in the order of the requests, whatever requests with other keys
  come in between.
\<close>

lemma fetch_counts:
  "hits (fst (fetch cfg m req)) k = hits m k + (if k = requestKey req then 1 else 0)
   \<and> count (fst (snd (fetch cfg m req))) = hits m (requestKey req) + 1
   \<and> map (\<lambda>(r, p). count (fst p))
         (filter (\<lambda>(r, p). requestKey r = key) (zip reqs (snd (serve cfg Map.empty reqs))))
       = [1 ..< Suc (length (filter (\<lambda>r. requestKey r = key) reqs))]"
proof -
  have one: "hits (fst (fetch cfg m req)) k = hits m k + (if k = requestKey req then 1 else 0)"
    unfolding fst_fetch requestKey_def by (rule hits_logRequest)
  have printed: "count (fst (snd (fetch cfg m req))) = hits m (requestKey req) + 1"
    unfolding info_fetch requestKey_def by (rule count_logRequest)
  have each: "map (\<lambda>(r, p). count (fst p))
         (filter (\<lambda>(r, p). requestKey r = key) (zip reqs (snd (serve cfg Map.empty reqs))))
       = [1 ..< Suc (length (filter (\<lambda>r. requestKey r = key) reqs))]"
    using serve_key_counts [of key reqs cfg Map.empty] by (simp add: hits_def del: upt_Suc)
  from one printed each show ?thesis by blast
qed

lemma requestKey_eq:
  "requestKey req =
     (case requestIP req of None \<Rightarrow> ''unknown'' | Some obj \<Rightarrow> ''[object Object]'')
     @ ''::'' @ orUnknown (userAgent req)"
  by (simp add: requestKey_def clientKey_def orUnknown_def objectToString_def split: option.splits)

text \<open>
  Claim C4 says that a hit is keyed on the remote address and the user-agent. The
  address never reaches the key: the key of a request is \<^verbatim>\<open>[object Object]\<close> (or
  \<^verbatim>\<open>unknown\<close>, when there is no address object), two colons and the user-agent (or
  \<^verbatim>\<open>unknown\<close>), whatever the address. Two clients at \<^verbatim>\<open>10.0.0.7\<close> and \<^verbatim>\<open>10.0.0.8\<close> with
  the same user-agent have the same key, and the first request of the second client is
  printed as connection 2 of the first.
\<close>

theorem address_not_in_key:
  "requestKey \<lparr>pathname = ''/k3x9q'',
      requestIP = Some \<lparr>address = ''10.0.0.7'', family = ''IPv4'', port = 50412\<rparr>,
      userAgent = Some ''curl/8.5.0''\<rparr> = ''[object Object]::curl/8.5.0''
   \<and> requestKey \<lparr>pathname = ''/k3x9q'',
      requestIP = Some \<lparr>address = ''10.0.0.8'', family = ''IPv4'', port = 50977\<rparr>,
      userAgent = Some ''curl/8.5.0''\<rparr> = ''[object Object]::curl/8.5.0''
   \<and> requestKey \<lparr>pathname = ''/k3x9q'', requestIP = None, userAgent = None\<rparr> = ''unknown::unknown''
   \<and> map (\<lambda>p. (ip (fst p), ua (fst p), count (fst p)))
        (snd (serve \<lparr>filePath = ''/tmp/a.txt'', fileName = ''a.txt'', urlPath = ''k3x9q'', fileSize = 3\<rparr>
           Map.empty
           [\<lparr>pathname = ''/k3x9q'',
              requestIP = Some \<lparr>address = ''10.0.0.7'', family = ''IPv4'', port = 50412\<rparr>,
              userAgent = Some ''curl/8.5.0''\<rparr>,
            \<lparr>pathname = ''/k3x9q'',
              requestIP = Some \<lparr>address = ''10.0.0.8'', family = ''IPv4'', port = 50977\<rparr>,
              userAgent = Some ''curl/8.5.0''\<rparr>]))
      = [(''[object Object]'', ''curl/8.5.0'', 1), (''[object Object]'', ''curl/8.5.0'', 2)]"
  by (simp add: requestKey_eq fetch_def logRequest_def clientKey_def orUnknown_def
      objectToString_def Let_def)

subsection \<open>Printed numbers\<close>

















subsection \<open>The request handler\<close>














text \<open>
  Claim C2 asks for a token of at least 5 characters. When \<^verbatim>\<open>Math.random()\<close> gives
  \<^verbatim>\<open>0.5\<close>, \<^verbatim>\<open>toString(36)\<close> prints \<^verbatim>\<open>"0.i"\<close> and the token is \<^verbatim>\<open>"i"\<close>, of length 1; when
  it gives \<^verbatim>\<open>0\<close> the token is empty.
\<close>

theorem randomUrlPath_short:
  "toString36 [18] = ''0.i'' \<and> randomUrlPath [18] = ''i'' \<and> length (randomUrlPath [18]) = 1
   \<and> toString36 [] = ''0'' \<and> randomUrlPath [] = []"
  by (simp add: randomUrlPath_def substring_def toString36_def digit36_def)

lemma digit36_alnum:
  "d < 36 \<Longrightarrow> digit36 d \<in> set ''0123456789abcdefghijklmnopqrstuvwxyz''"
  unfolding digit36_def by (rule nth_mem) simp

lemma randomUrlPath_eq: "randomUrlPath ds = map digit36 (take 5 ds)"
  by (cases ds) (simp_all add: randomUrlPath_def substring_def toString36_def take_map min_def)

lemma randomUrlPath_length: "length (randomUrlPath ds) = min 5 (length ds)"
  by (simp add: randomUrlPath_eq)

text \<open>
  The token is made of the first five fraction digits that were printed: it has five
  characters when at least five were printed and fewer otherwise, each a decimal digit or a
  lowercase letter.
\<close>

theorem token_shape:
  "randomUrlPath ds = map digit36 (take 5 ds)
   \<and> length (randomUrlPath ds) = min 5 (length ds)
   \<and> (list_all (\<lambda>d. d < 36) ds \<longrightarrow>
        list_all (\<lambda>c. c \<in> set ''0123456789abcdefghijklmnopqrstuvwxyz'') (randomUrlPath ds))"
proof (intro conjI impI)
  show "randomUrlPath ds = map digit36 (take 5 ds)" by (rule randomUrlPath_eq)
  show "length (randomUrlPath ds) = min 5 (length ds)" by (rule randomUrlPath_length)
next
  assume "list_all (\<lambda>d. d < 36) ds"
  then have "\<forall>d \<in> set (take 5 ds). d < 36"
    by (auto simp: list_all_iff dest: in_set_takeD)
  then show "list_all (\<lambda>c. c \<in> set ''0123456789abcdefghijklmnopqrstuvwxyz'') (randomUrlPath ds)"
    unfolding randomUrlPath_eq list_all_iff using digit36_alnum by auto
qed

theorem token_shape_witness:
  "randomUrlPath [20, 3, 33, 9, 26, 1] = ''k3x9q''
   \<and> list_all (\<lambda>c. c \<in> set ''0123456789abcdefghijklmnopqrstuvwxyz'') (randomUrlPath [20, 3, 33, 9, 26, 1])"
proof -
  have "list_all (\<lambda>d. d < 36) [20, 3, 33, 9, 26, 1 :: nat]" by simp
  with token_shape [of "[20, 3, 33, 9, 26, 1]"]
  have "randomUrlPath [20, 3, 33, 9, 26, 1] = map digit36 (take 5 [20, 3, 33, 9, 26, 1])"
    and "list_all (\<lambda>c. c \<in> set ''0123456789abcdefghijklmnopqrstuvwxyz'') (randomUrlPath [20, 3, 33, 9, 26, 1])"
    by blast+
  then show ?thesis by (simp add: digit36_def)
qed

subsection \<open>The pattern\<close>

lemma not_label_point: "\<not> is_label_char (CHR ''.'')"
  by (simp add: is_label_char_def)

lemma not_label_slash: "\<not> is_label_char (CHR ''/'')"
  by (simp add: is_label_char_def)

lemma match_here_SomeD:
  assumes "match_here s = Some url"
  shows "\<exists>label rest. label \<noteq> [] \<and> list_all is_label_char label
           \<and> s = ''https://'' @ label @ ''.trycloudflare.com'' @ rest
           \<and> url = ''https://'' @ label @ ''.trycloudflare.com''"
proof -
  define r where "r = drop 8 s"
  define label where "label = takeWhile is_label_char r"
  define after where "after = dropWhile is_label_char r"
  from assms have p: "prefix ''https://'' s"
    by (auto simp: match_here_def split: if_splits)
  then have s: "s = ''https://'' @ r"
    by (auto simp: prefix_def r_def)
  from assms p have l: "label \<noteq> []" and a: "prefix ''.trycloudflare.com'' after"
    and u: "url = ''https://'' @ label @ ''.trycloudflare.com''"
    by (auto simp: match_here_def Let_def r_def label_def after_def split: if_splits)
  from a obtain rest where rest: "after = ''.trycloudflare.com'' @ rest"
    by (auto simp: prefix_def)
  have "r = label @ after" by (simp add: label_def after_def)
  then have "s = ''https://'' @ label @ ''.trycloudflare.com'' @ rest"
    using s rest by simp
  moreover have "list_all is_label_char label"
    by (auto simp: label_def list_all_iff dest: set_takeWhileD)
  ultimately show ?thesis using l u by blast
qed

lemma match_here_SomeI:
  assumes "label \<noteq> []" and "list_all is_label_char label"
  shows "match_here (''https://'' @ label @ ''.trycloudflare.com'' @ rest)
         = Some (''https://'' @ label @ ''.trycloudflare.com'')"
proof -
  have all: "\<forall>x \<in> set label. is_label_char x" using assms(2) by (simp add: list_all_iff)
  have t: "takeWhile is_label_char (label @ CHR ''.'' # x) = label" for x
    using all not_label_point by (simp add: takeWhile_append2)
  have d: "dropWhile is_label_char (label @ CHR ''.'' # x) = CHR ''.'' # x" for x
    using all not_label_point by (simp add: dropWhile_append2)
  show ?thesis
    unfolding match_here_def using assms(1) by (simp add: Let_def t d)
qed

lemma match_here_append: "match_here s = Some url \<Longrightarrow> match_here (s @ t) = Some url"
proof -
  assume "match_here s = Some url"
  then obtain label rest where "label \<noteq> []" "list_all is_label_char label"
      "s = ''https://'' @ label @ ''.trycloudflare.com'' @ rest"
      "url = ''https://'' @ label @ ''.trycloudflare.com''"
    using match_here_SomeD by blast
  then show ?thesis using match_here_SomeI [of label "rest @ t"] by simp
qed

lemma urlMatch_contains: "urlMatch s = Some url \<Longrightarrow> \<exists>p q. s = p @ ''https://'' @ q"
proof (induction s)
  case Nil
  then show ?case by simp
next
  case (Cons c cs)
  show ?case
  proof (cases "match_here (c # cs)")
    case None
    with Cons.prems have "urlMatch cs = Some url" by simp
    then obtain p q where "cs = p @ ''https://'' @ q" using Cons.IH by blast
    then have "c # cs = (c # p) @ ''https://'' @ q" by simp
    then show ?thesis by blast
  next
    case (Some v)
    then obtain label rest where "c # cs = ''https://'' @ label @ ''.trycloudflare.com'' @ rest"
      using match_here_SomeD by blast
    then have "c # cs = [] @ ''https://'' @ (label @ ''.trycloudflare.com'' @ rest)" by simp
    then show ?thesis by blast
  qed
qed

lemma match_here_None_append:
  assumes none: "match_here (c # cs) = None" and later: "urlMatch cs = Some url"
  shows "match_here ((c # cs) @ t) = None"
proof (cases "match_here ((c # cs) @ t)")
  case None
  then show ?thesis .
next
  case (Some v)
  define s where "s = c # cs"
  from match_here_SomeD [OF Some] obtain label rest where l: "label \<noteq> []" "list_all is_label_char label"
    and eq: "(c # cs) @ t = ''https://'' @ label @ ''.trycloudflare.com'' @ rest"
    by blast
  define M where "M = ''https://'' @ label @ ''.trycloudflare.com''"
  have dropM: "drop 8 M = label @ ''.trycloudflare.com''" by (simp add: M_def)
  have "s @ t = M @ rest" using eq by (simp add: s_def M_def)
  then obtain us where "(s = M @ us \<and> us @ t = rest) \<or> (s @ us = M \<and> t = us @ rest)"
    using append_eq_append_conv2 [of s t M rest] by blast
  then have False
  proof
    assume "s = M @ us \<and> us @ t = rest"
    then have "c # cs = ''https://'' @ label @ ''.trycloudflare.com'' @ us"
      by (simp add: s_def M_def)
    then have "match_here (c # cs) = Some (''https://'' @ label @ ''.trycloudflare.com'')"
      using match_here_SomeI [OF l, of us] by (simp only:)
    with none show False by simp
  next
    assume pre: "s @ us = M \<and> t = us @ rest"
    obtain p q where pq: "cs = p @ ''https://'' @ q" using urlMatch_contains [OF later] by blast
    define A where "A = c # p @ ''https:/''"
    have lenA: "8 \<le> length A" by (simp add: A_def)
    have "s @ us = A @ CHR ''/'' # (q @ us)" by (simp add: s_def pq A_def)
    then have "drop 8 (s @ us) = drop 8 A @ CHR ''/'' # (q @ us)"
      using lenA by (simp only: drop_append) simp
    then have "CHR ''/'' \<in> set (drop 8 (s @ us))" by (simp only: set_append) simp
    moreover have "drop 8 (s @ us) = label @ ''.trycloudflare.com''"
      using pre dropM by (simp only:)
    ultimately have "CHR ''/'' \<in> set (label @ ''.trycloudflare.com'')" by (simp only:)
    then have "CHR ''/'' \<in> set label" by simp
    moreover have "CHR ''/'' \<notin> set label"
      using l(2) not_label_slash by (auto simp: list_all_iff)
    ultimately show False by simp
  qed
  then show ?thesis ..
qed

lemma urlMatch_append: "urlMatch s = Some url \<Longrightarrow> urlMatch (s @ t) = Some url"
proof (induction s)
  case Nil
  then show ?case by simp
next
  case (Cons c cs)
  show ?case
  proof (cases "match_here (c # cs)")
    case None
    with Cons.prems have later: "urlMatch cs = Some url" by simp
    have "match_here ((c # cs) @ t) = None" by (rule match_here_None_append [OF None later])
    then show ?thesis using Cons.IH [OF later] by simp
  next
    case (Some v)
    with Cons.prems have "v = url" by simp
    then show ?thesis using match_here_append [OF Some, of t] by simp
  qed
qed

lemma urlMatch_form:
  "urlMatch s = Some url \<Longrightarrow>
   (\<exists>label. label \<noteq> [] \<and> list_all is_label_char label \<and> url = ''https://'' @ label @ ''.trycloudflare.com'')
   \<and> sublist url s"
proof (induction s)
  case Nil
  then show ?case by simp
next
  case (Cons c cs)
  show ?case
  proof (cases "match_here (c # cs)")
    case None
    with Cons.prems have "urlMatch cs = Some url" by simp
    from Cons.IH [OF this] have form: "\<exists>label. label \<noteq> [] \<and> list_all is_label_char label
        \<and> url = ''https://'' @ label @ ''.trycloudflare.com''" by (rule conjunct1)
    from Cons.IH [OF \<open>urlMatch cs = Some url\<close>] have sub: "sublist url cs" by (rule conjunct2)
    from sub have "sublist url (c # cs)" unfolding sublist_Cons_right by (rule disjI2)
    with form show ?thesis by blast
  next
    case (Some v)
    with Cons.prems have v: "v = url" by simp
    from match_here_SomeD [OF Some] obtain label rest where
      "label \<noteq> []" "list_all is_label_char label"
      "c # cs = ''https://'' @ label @ ''.trycloudflare.com'' @ rest"
      "v = ''https://'' @ label @ ''.trycloudflare.com''" by blast
    moreover from this have "c # cs = [] @ v @ rest" by simp
    then have "sublist v (c # cs)" unfolding sublist_def by blast
    ultimately show ?thesis using v by blast
  qed
qed

subsection \<open>The tunnel\<close>

lemma run_Nil: "run s [] = s"
  by (simp add: run_def)

lemma run_Cons: "run s (e # evs) = run (handle s e) evs"
  by (simp add: run_def)

lemma run_append: "run s (xs @ ys) = run (run s xs) ys"
  by (simp add: run_def)

lemma run_snoc: "run s (xs @ [e]) = handle (run s xs) e"
  by (simp add: run_def)

lemma settled_resolve: "settled (resolve v s) = (case settled s of None \<Rightarrow> Some v | Some w \<Rightarrow> Some w)"
  by (simp add: resolve_def split: option.splits)

lemma settled_handle_keep: "settled s = Some v \<Longrightarrow> settled (handle s e) = Some v"
  by (cases e)
    (simp_all add: readChunk_def stopReading_def onTimeout_def onExited_def kill_def
      settled_resolve Let_def split: option.splits)

lemma settled_run_keep: "settled s = Some v \<Longrightarrow> settled (run s evs) = Some v"
  by (induction evs arbitrary: s) (simp_all add: run_Nil run_Cons settled_handle_keep)

lemma inv_init: "reachable_inv init"
  by (simp add: reachable_inv_def init_def)

lemma inv_readChunk: "reachable_inv s \<Longrightarrow> reachable_inv (readChunk st chunk s)"
  by (auto simp: reachable_inv_def readChunk_def resolve_def Let_def split: option.splits)

lemma inv_stopReading: "reachable_inv s \<Longrightarrow> reachable_inv (stopReading st s)"
  by (simp add: reachable_inv_def stopReading_def)

lemma inv_onTimeout: "reachable_inv s \<Longrightarrow> reachable_inv (onTimeout s)"
  by (auto simp: reachable_inv_def onTimeout_def kill_def resolve_def)

lemma inv_onExited: "reachable_inv s \<Longrightarrow> reachable_inv (onExited code s)"
  by (auto simp: reachable_inv_def onExited_def resolve_def Let_def)

lemma inv_handle: "reachable_inv s \<Longrightarrow> reachable_inv (handle s e)"
  by (cases e) (simp_all add: inv_readChunk inv_stopReading inv_onTimeout inv_onExited)

lemma inv_run: "reachable_inv s \<Longrightarrow> reachable_inv (run s evs)"
  by (induction evs arbitrary: s) (simp_all add: run_Nil run_Cons inv_handle)

lemma inv_reached: "reachable_inv (run init evs)"
  by (rule inv_run [OF inv_init])

lemma pending_not_found: "reachable_inv s \<Longrightarrow> settled s = None \<Longrightarrow> \<not> urlFound s \<and> proc s = Running \<and> kills s = 0"
  by (simp add: reachable_inv_def)

lemma pending_Timeout: "\<not> urlFound s \<Longrightarrow> settled s = None \<Longrightarrow> settled (handle s Timeout) = Some None"
  by (simp add: onTimeout_def kill_def resolve_def)

lemma pending_Exited: "\<not> urlFound s \<Longrightarrow> settled s = None \<Longrightarrow> settled (handle s (Exited code)) = Some None"
  by (simp add: onExited_def resolve_def Let_def)

lemma pending_Chunk:
  "\<not> urlFound s \<Longrightarrow> settled s = None \<Longrightarrow>
   settled (handle s (Chunk st chunk))
     = (if reading s st then map_option Some (urlMatch (output s @ chunk)) else None)"
  by (simp add: readChunk_def resolve_def Let_def split: option.splits)

lemma pending_stop: "settled (handle s (Done st)) = settled s" "settled (handle s (ReadError st)) = settled s"
  by (simp_all add: stopReading_def)

lemma Timeout_settles: "Timeout \<in> set evs \<Longrightarrow> settled (run init evs) \<noteq> None"
proof -
  assume "Timeout \<in> set evs"
  then obtain pre post where evs: "evs = pre @ Timeout # post" by (auto dest: split_list)
  have "settled (handle (run init pre) Timeout) \<noteq> None"
  proof (cases "settled (run init pre)")
    case None
    then show ?thesis
      using pending_not_found [OF inv_reached None] pending_Timeout [of "run init pre"] by simp
  next
    case (Some v)
    then show ?thesis using settled_handle_keep [OF Some, of Timeout] by simp
  qed
  then obtain v where "settled (handle (run init pre) Timeout) = Some v" by blast
  from settled_run_keep [OF this, of post]
  show ?thesis by (simp add: evs run_append run_Cons)
qed

text \<open>
  Claim C3 says that the outcome tells a timeout from an exit and carries the exit code.
  The awaited value does neither: it is \<^verbatim>\<open>null\<close> after a timeout, after an exit with
  code 0 and after an exit with code 1.
\<close>

theorem resolution_counterexample:
  "runCloudFlaredTunnel True [Timeout] = runCloudFlaredTunnel True [Exited 1]
   \<and> runCloudFlaredTunnel True [Exited 0] = runCloudFlaredTunnel True [Exited 1]
   \<and> runCloudFlaredTunnel True [Exited 1] = Some None"
  by (simp add: runCloudFlaredTunnel_def run_def init_def onTimeout_def onExited_def kill_def
      resolve_def Let_def)

text \<open>
  Claim C3, as the code has it. The promise is settled at most once: a settled value
  survives every later event. While it is pending, the timeout settles it with \<^verbatim>\<open>null\<close>,
  an exit settles it with \<^verbatim>\<open>null\<close> whatever the code, a chunk read by a running reader
  settles it with the match of the buffer when the buffer has one and leaves it pending
  otherwise, and the end of a stream or a read error leaves it pending. A run in which
  the timer fires has a settled promise. The caller awaits that value, or \<^verbatim>\<open>null\<close> when the
  spawn throws.
\<close>

theorem first_resolution:
  "(settled (run init pre) = Some v \<longrightarrow> settled (run init (pre @ post)) = Some v)
   \<and> (settled (run init pre) = None \<longrightarrow>
        settled (run init (pre @ [Timeout])) = Some None
        \<and> settled (run init (pre @ [Exited code])) = Some None
        \<and> settled (run init (pre @ [Chunk st chunk]))
            = (if reading (run init pre) st
               then map_option Some (urlMatch (output (run init pre) @ chunk)) else None)
        \<and> settled (run init (pre @ [Done st])) = None
        \<and> settled (run init (pre @ [ReadError st])) = None)
   \<and> (Timeout \<in> set evs \<longrightarrow> settled (run init evs) \<noteq> None)
   \<and> runCloudFlaredTunnel True evs = settled (run init evs)
   \<and> runCloudFlaredTunnel False evs = Some None"
proof (intro conjI impI)
  assume "settled (run init pre) = Some v"
  then show "settled (run init (pre @ post)) = Some v"
    by (simp add: run_append settled_run_keep)
next
  assume pending: "settled (run init pre) = None"
  note nf = pending_not_found [OF inv_reached pending, THEN conjunct1]
  show "settled (run init (pre @ [Timeout])) = Some None"
    unfolding run_snoc by (rule pending_Timeout [OF nf pending])
  show "settled (run init (pre @ [Exited code])) = Some None"
    unfolding run_snoc by (rule pending_Exited [OF nf pending])
  show "settled (run init (pre @ [Chunk st chunk]))
          = (if reading (run init pre) st
             then map_option Some (urlMatch (output (run init pre) @ chunk)) else None)"
    unfolding run_snoc by (rule pending_Chunk [OF nf pending])
  show "settled (run init (pre @ [Done st])) = None"
    unfolding run_snoc pending_stop by (rule pending)
  show "settled (run init (pre @ [ReadError st])) = None"
    unfolding run_snoc pending_stop by (rule pending)
next
  assume "Timeout \<in> set evs"
  then show "settled (run init evs) \<noteq> None" by (rule Timeout_settles)
next
  show "runCloudFlaredTunnel True evs = settled (run init evs)"
    by (simp add: runCloudFlaredTunnel_def)
  show "runCloudFlaredTunnel False evs = Some None"
    by (simp add: runCloudFlaredTunnel_def)
qed

theorem first_resolution_witness:
  "settled (run init ([Chunk Stderr ''INF starting'', Exited 1] @ [Timeout, Chunk Stdout ''https://a.trycloudflare.com''])) = Some None
   \<and> settled (run init ([Chunk Stderr ''INF starting''] @ [Timeout])) = Some None
   \<and> settled (run init ([Chunk Stderr ''INF starting''] @ [Chunk Stdout ''https://a.trycloudflare.com'']))
       = Some (Some ''https://a.trycloudflare.com'')
   \<and> settled (run init [Done Stdout, Done Stderr, Timeout]) \<noteq> None"
proof -
  have one: "settled (run init [Chunk Stderr ''INF starting'', Exited 1]) = Some None"
    by (simp add: run_def init_def readChunk_def onExited_def resolve_def match_here_def Let_def)
  have two: "settled (run init [Chunk Stderr ''INF starting'']) = None"
    by (simp add: run_def init_def readChunk_def match_here_def Let_def)
  have three: "reading (run init [Chunk Stderr ''INF starting'']) Stdout"
      "output (run init [Chunk Stderr ''INF starting'']) = ''INF starting''"
    by (simp_all add: run_def init_def readChunk_def match_here_def Let_def)
  have four: "urlMatch (''INF starting'' @ ''https://a.trycloudflare.com'') = Some ''https://a.trycloudflare.com''"
    by (simp add: match_here_def is_label_char_def Let_def)
  from first_resolution [of "[Chunk Stderr ''INF starting'', Exited 1]" None
      "[Timeout, Chunk Stdout ''https://a.trycloudflare.com'']"] one
  have a: "settled (run init ([Chunk Stderr ''INF starting'', Exited 1] @ [Timeout, Chunk Stdout ''https://a.trycloudflare.com''])) = Some None"
    by blast
  from first_resolution [of "[Chunk Stderr ''INF starting'']" _ _ 1 Stdout "''https://a.trycloudflare.com''"] two
  have b: "settled (run init ([Chunk Stderr ''INF starting''] @ [Timeout])) = Some None"
    and c: "settled (run init ([Chunk Stderr ''INF starting''] @ [Chunk Stdout ''https://a.trycloudflare.com'']))
            = (if reading (run init [Chunk Stderr ''INF starting'']) Stdout
               then map_option Some (urlMatch (output (run init [Chunk Stderr ''INF starting'']) @ ''https://a.trycloudflare.com'')) else None)"
    by blast+
  from c three four
  have "settled (run init ([Chunk Stderr ''INF starting''] @ [Chunk Stdout ''https://a.trycloudflare.com'']))
       = Some (Some ''https://a.trycloudflare.com'')"
    by (simp only: if_True option.map)
  moreover from first_resolution [where evs = "[Done Stdout, Done Stderr, Timeout]"]
  have "settled (run init [Done Stdout, Done Stderr, Timeout]) \<noteq> None"
    by simp
  ultimately show ?thesis using a b by (simp only: simp_thms)
qed

lemma urlMatch_complete:
  assumes "label \<noteq> []" and "list_all is_label_char label"
  shows "\<exists>url. urlMatch (pre @ ''https://'' @ label @ ''.trycloudflare.com'' @ post) = Some url"
proof (induction pre)
  case Nil
  have "match_here (''https://'' @ label @ ''.trycloudflare.com'' @ post)
        = Some (''https://'' @ label @ ''.trycloudflare.com'')"
    by (rule match_here_SomeI [OF assms])
  then show ?case by simp
next
  case (Cons c pre)
  then show ?case by (cases "match_here (c # pre @ ''https://'' @ label @ ''.trycloudflare.com'' @ post)") auto
qed

lemma match_here_colon: "match_here s = Some url \<Longrightarrow> 5 < length s \<and> s ! 5 = CHR '':''"
proof -
  assume "match_here s = Some url"
  then obtain label rest where "s = ''https://'' @ label @ ''.trycloudflare.com'' @ rest"
    using match_here_SomeD by blast
  then show ?thesis by simp
qed

lemma https_no_colon: "i < 5 \<Longrightarrow> (''https://'' @ r) ! i \<noteq> CHR '':''"
proof -
  assume "i < 5"
  then have "i \<in> {0, 1, 2, 3, 4}" by auto
  then show ?thesis by auto
qed

lemma urlMatch_exact:
  assumes "label \<noteq> []" and "list_all is_label_char label" and "CHR '':'' \<notin> set pre"
  shows "urlMatch (pre @ ''https://'' @ label @ ''.trycloudflare.com'' @ post)
         = Some (''https://'' @ label @ ''.trycloudflare.com'')"
  using assms(3)
proof (induction pre)
  case Nil
  have "match_here (''https://'' @ label @ ''.trycloudflare.com'' @ post)
        = Some (''https://'' @ label @ ''.trycloudflare.com'')"
    by (rule match_here_SomeI [OF assms(1,2)])
  then show ?case by simp
next
  case (Cons c pre)
  define r where "r = label @ ''.trycloudflare.com'' @ post"
  define s where "s = (c # pre) @ ''https://'' @ r"
  have none: "match_here s = None"
  proof (cases "match_here s")
    case None
    then show ?thesis .
  next
    case (Some v)
    from match_here_colon [OF Some] have five: "s ! 5 = CHR '':''" by simp
    show ?thesis
    proof (cases "5 < length (c # pre)")
      case True
      then have "s ! 5 = (c # pre) ! 5" unfolding s_def by (simp only: nth_append if_True)
      with five True have "CHR '':'' \<in> set (c # pre)" by (metis nth_mem)
      with Cons.prems show ?thesis by simp
    next
      case False
      then have "s ! 5 = (''https://'' @ r) ! (5 - length (c # pre))"
        unfolding s_def by (simp only: nth_append if_False)
      moreover have "5 - length (c # pre) < 5" by simp
      ultimately have "s ! 5 \<noteq> CHR '':''" using https_no_colon by simp
      with five show ?thesis by simp
    qed
  qed
  have "urlMatch (pre @ ''https://'' @ label @ ''.trycloudflare.com'' @ post)
        = Some (''https://'' @ label @ ''.trycloudflare.com'')"
    using Cons by simp
  then show ?case using none by (simp add: s_def r_def)
qed

lemma received_resolve:
  assumes "settled s = None" and "\<not> urlFound s" and "reading s = rd"
    and "urlMatch (output s) = None"
    and "noTimeoutOrExit evs"
    and "urlMatch (output s @ received rd evs) = Some url"
  shows "settled (run s evs) = Some (Some url)"
  using assms
proof (induction evs arbitrary: s rd)
  case Nil
  then show ?case by simp
next
  case (Cons e evs)
  show ?case
  proof (cases e)
    case (Chunk st chunk)
    show ?thesis
    proof (cases "rd st")
      case False
      then have same: "handle s e = s"
        using Cons.prems(3) by (simp add: Chunk readChunk_def)
      have "settled (run s evs) = Some (Some url)"
        by (rule Cons.IH [of s rd]) (use Cons.prems Chunk False in simp_all)
      then show ?thesis by (simp add: run_Cons same)
    next
      case True
      define s' where "s' = readChunk st chunk s"
      have whole: "urlMatch ((output s @ chunk) @ received rd evs) = Some url"
        using Cons.prems(6) True by (simp add: Chunk)
      show ?thesis
      proof (cases "urlMatch (output s @ chunk)")
        case None
        have s': "s' = s\<lparr>output := output s @ chunk\<rparr>"
          using Cons.prems(3) True None by (simp add: s'_def readChunk_def Let_def)
        have "settled (run s' evs) = Some (Some url)"
          by (rule Cons.IH [of s' rd]) (use Cons.prems Chunk None whole in \<open>simp_all add: s'\<close>)
        then show ?thesis by (simp add: run_Cons Chunk s'_def)
      next
        case (Some v)
        from urlMatch_append [OF Some, of "received rd evs"] whole have v: "v = url" by simp
        have "settled s' = Some (Some url)"
          using Cons.prems(1,2,3) True Some v by (simp add: s'_def readChunk_def resolve_def Let_def)
        then have "settled (run s' evs) = Some (Some url)" by (rule settled_run_keep)
        then show ?thesis by (simp add: run_Cons Chunk s'_def)
      qed
    qed
  next
    case (Done st)
    have a: "settled (stopReading st s) = None" and b: "\<not> urlFound (stopReading st s)"
      and d: "urlMatch (output (stopReading st s)) = None"
      using Cons.prems(1,2,4) by (simp_all add: stopReading_def)
    have c: "reading (stopReading st s) = rd(st := False)"
      using Cons.prems(3) by (simp add: stopReading_def)
    have q: "noTimeoutOrExit evs" using Cons.prems(5) by (simp add: Done)
    have m: "urlMatch (output (stopReading st s) @ received (rd(st := False)) evs) = Some url"
      using Cons.prems(6) by (simp add: Done stopReading_def)
    have "settled (run (stopReading st s) evs) = Some (Some url)"
      by (rule Cons.IH [OF a b c d q m])
    then show ?thesis by (simp add: run_Cons Done)
  next
    case (ReadError st)
    have a: "settled (stopReading st s) = None" and b: "\<not> urlFound (stopReading st s)"
      and d: "urlMatch (output (stopReading st s)) = None"
      using Cons.prems(1,2,4) by (simp_all add: stopReading_def)
    have c: "reading (stopReading st s) = rd(st := False)"
      using Cons.prems(3) by (simp add: stopReading_def)
    have q: "noTimeoutOrExit evs" using Cons.prems(5) by (simp add: ReadError)
    have m: "urlMatch (output (stopReading st s) @ received (rd(st := False)) evs) = Some url"
      using Cons.prems(6) by (simp add: ReadError stopReading_def)
    have "settled (run (stopReading st s) evs) = Some (Some url)"
      by (rule Cons.IH [OF a b c d q m])
    then show ?thesis by (simp add: run_Cons ReadError)
  next
    case Timeout
    with Cons.prems(5) show ?thesis by simp
  next
    case (Exited code)
    with Cons.prems(5) show ?thesis by simp
  qed
qed

lemma received_run:
  assumes "noTimeoutOrExit evs" and "urlMatch (received (\<lambda>_. True) evs) = Some url"
  shows "settled (run init (evs @ rest)) = Some (Some url)"
proof -
  have "settled (run init evs) = Some (Some url)"
    by (rule received_resolve [of init "\<lambda>_. True"]) (use assms in \<open>simp_all add: init_def\<close>)
  then show ?thesis unfolding run_append by (rule settled_run_keep)
qed

text \<open>
  Claim C7 says that every subprocess whose output holds a URL cut across two writes
  gets that URL. Here the two chunks of the standard output hold one, and the function
  gives \<^verbatim>\<open>null\<close> twice: when a chunk of the standard error arrives between them, since the
  two readers append to the same buffer and the chunk lands inside the text of the URL;
  and when the timer fires between them.
\<close>

theorem split_url_counterexample:
  "urlMatch (''https://foo-bar.tryc'' @ ''loudflare.com'') = Some ''https://foo-bar.trycloudflare.com''
   \<and> output (run init [Chunk Stdout ''https://foo-bar.tryc'', Chunk Stderr ''INF'',
                         Chunk Stdout ''loudflare.com''])
       = ''https://foo-bar.trycINFloudflare.com''
   \<and> runCloudFlaredTunnel True
         [Chunk Stdout ''https://foo-bar.tryc'', Chunk Stderr ''INF'', Chunk Stdout ''loudflare.com'',
          Timeout] = Some None
   \<and> runCloudFlaredTunnel True
         [Chunk Stdout ''https://foo-bar.tryc'', Timeout, Chunk Stdout ''loudflare.com''] = Some None"
  by (simp add: runCloudFlaredTunnel_def run_def init_def readChunk_def onTimeout_def kill_def
      resolve_def match_here_def is_label_char_def Let_def)

text \<open>
  Claim C7, as the code has it. A running reader appends each chunk to the buffer, the
  one buffer of both readers, before the pattern is tested. Take a run with no timeout and
  no exit so far, and the text of the chunks that the two readers have read, joined in the
  order of arrival (a reader reads until its stream ends or a read fails). When that text
  contains \<^verbatim>\<open>https://\<close>, a non-empty label of letters, digits and hyphens, and
  \<^verbatim>\<open>.trycloudflare.com\<close>, the promise is settled with a URL, however the text was cut into
  chunks and whatever happens afterwards: the leftmost match of the pattern in the text,
  itself of that form and a piece of the text, and the very URL named when no colon stands
  before it. For a sequence of chunks alone the text is all of them joined.
\<close>

theorem split_url_resolves:
  "(reading s st \<longrightarrow> output (handle s (Chunk st chunk)) = output s @ chunk)
   \<and> (noTimeoutOrExit evs \<and> label \<noteq> [] \<and> list_all is_label_char label
        \<and> received (\<lambda>_. True) evs = pre @ ''https://'' @ label @ ''.trycloudflare.com'' @ post \<longrightarrow>
        (\<exists>url. settled (run init (evs @ rest)) = Some (Some url)
           \<and> urlMatch (received (\<lambda>_. True) evs) = Some url
           \<and> (\<exists>l. l \<noteq> [] \<and> list_all is_label_char l \<and> url = ''https://'' @ l @ ''.trycloudflare.com'')
           \<and> sublist url (received (\<lambda>_. True) evs)
           \<and> (CHR '':'' \<notin> set pre \<longrightarrow> url = ''https://'' @ label @ ''.trycloudflare.com'')))
   \<and> (noTimeoutOrExit evs \<and> urlMatch (received (\<lambda>_. True) evs) = Some url \<longrightarrow>
        settled (run init (evs @ rest)) = Some (Some url))
   \<and> received (\<lambda>_. True) (map (\<lambda>(st, chunk). Chunk st chunk) cs) = concat (map snd cs)
   \<and> noTimeoutOrExit (map (\<lambda>(st, chunk). Chunk st chunk) cs)"
proof (intro conjI impI)
  assume "reading s st"
  then show "output (handle s (Chunk st chunk)) = output s @ chunk"
    by (simp add: readChunk_def resolve_def Let_def split: option.splits)
next
  assume h: "noTimeoutOrExit evs \<and> label \<noteq> [] \<and> list_all is_label_char label
        \<and> received (\<lambda>_. True) evs = pre @ ''https://'' @ label @ ''.trycloudflare.com'' @ post"
  then obtain url where m: "urlMatch (received (\<lambda>_. True) evs) = Some url"
    using urlMatch_complete [of label pre post] by auto
  have r: "settled (run init (evs @ rest)) = Some (Some url)"
    using received_run [OF _ m] h by blast
  have exact: "url = ''https://'' @ label @ ''.trycloudflare.com''" if "CHR '':'' \<notin> set pre"
    using urlMatch_exact [of label pre post] that h m by simp
  from urlMatch_form [OF m] r m exact
  show "\<exists>url. settled (run init (evs @ rest)) = Some (Some url)
           \<and> urlMatch (received (\<lambda>_. True) evs) = Some url
           \<and> (\<exists>l. l \<noteq> [] \<and> list_all is_label_char l \<and> url = ''https://'' @ l @ ''.trycloudflare.com'')
           \<and> sublist url (received (\<lambda>_. True) evs)
           \<and> (CHR '':'' \<notin> set pre \<longrightarrow> url = ''https://'' @ label @ ''.trycloudflare.com'')"
    by blast
next
  assume "noTimeoutOrExit evs \<and> urlMatch (received (\<lambda>_. True) evs) = Some url"
  then show "settled (run init (evs @ rest)) = Some (Some url)"
    using received_run by blast
next
  show "received (\<lambda>_. True) (map (\<lambda>(st, chunk). Chunk st chunk) cs) = concat (map snd cs)"
    by (induction cs) auto
  show "noTimeoutOrExit (map (\<lambda>(st, chunk). Chunk st chunk) cs)"
    by (induction cs) auto
qed

theorem split_url_resolves_witness:
  "output (handle init (Chunk Stdout ''... https://foo-'')) = output init @ ''... https://foo-''
   \<and> settled (run init ([Chunk Stderr ''INF | https://fo'', Done Stdout,
                          Chunk Stderr ''o-bar.trycloudflare.com |''] @ [Timeout, Exited 143]))
       = Some (Some ''https://foo-bar.trycloudflare.com'')
   \<and> settled (run init ([Chunk Stdout ''... https://foo-'', ReadError Stderr,
                          Chunk Stdout ''bar.trycloudflare.com ...''] @ []))
       = Some (Some ''https://foo-bar.trycloudflare.com'')"
proof -
  have r: "reading init Stdout" by (simp add: init_def)
  from split_url_resolves [of init Stdout "''... https://foo-''"] r
  have one: "output (handle init (Chunk Stdout ''... https://foo-'')) = output init @ ''... https://foo-''"
    by blast
  have q2: "noTimeoutOrExit [Chunk Stderr ''INF | https://fo'', Done Stdout,
              Chunk Stderr ''o-bar.trycloudflare.com |'']"
    by simp
  have l2: "''foo-bar'' \<noteq> []" "list_all is_label_char ''foo-bar''"
    by (simp_all add: is_label_char_def)
  have t2: "received (\<lambda>_. True) [Chunk Stderr ''INF | https://fo'', Done Stdout,
              Chunk Stderr ''o-bar.trycloudflare.com |'']
            = ''INF | '' @ ''https://'' @ ''foo-bar'' @ ''.trycloudflare.com'' @ '' |''"
    by simp
  have c2: "CHR '':'' \<notin> set ''INF | ''" by simp
  from split_url_resolves [where evs = "[Chunk Stderr ''INF | https://fo'', Done Stdout,
              Chunk Stderr ''o-bar.trycloudflare.com |'']" and label = "''foo-bar''"
            and pre = "''INF | ''" and post = "'' |''" and rest = "[Timeout, Exited 143]"]
    q2 l2 t2 c2
  obtain url where "settled (run init ([Chunk Stderr ''INF | https://fo'', Done Stdout,
                          Chunk Stderr ''o-bar.trycloudflare.com |''] @ [Timeout, Exited 143]))
       = Some (Some url)" and "url = ''https://'' @ ''foo-bar'' @ ''.trycloudflare.com''"
    by blast
  then have two: "settled (run init ([Chunk Stderr ''INF | https://fo'', Done Stdout,
                          Chunk Stderr ''o-bar.trycloudflare.com |''] @ [Timeout, Exited 143]))
       = Some (Some ''https://foo-bar.trycloudflare.com'')"
    by simp
  have q3: "noTimeoutOrExit [Chunk Stdout ''... https://foo-'', ReadError Stderr,
              Chunk Stdout ''bar.trycloudflare.com ...'']"
    by simp
  have m3: "urlMatch (received (\<lambda>_. True) [Chunk Stdout ''... https://foo-'', ReadError Stderr,
              Chunk Stdout ''bar.trycloudflare.com ...''])
            = Some ''https://foo-bar.trycloudflare.com''"
    by (simp add: match_here_def is_label_char_def Let_def)
  from split_url_resolves [where evs = "[Chunk Stdout ''... https://foo-'', ReadError Stderr,
              Chunk Stdout ''bar.trycloudflare.com ...'']"
            and url = "''https://foo-bar.trycloudflare.com''" and rest = "[]"]
    q3 m3
  have three: "settled (run init ([Chunk Stdout ''... https://foo-'', ReadError Stderr,
                          Chunk Stdout ''bar.trycloudflare.com ...''] @ []))
       = Some (Some ''https://foo-bar.trycloudflare.com'')"
    by blast
  from one two three show ?thesis by (simp only: simp_thms)
qed

lemma kills_handle: "kills (handle s e) = kills s + (if e = Timeout \<and> \<not> urlFound s then 1 else 0)"
  by (cases e)
    (simp_all add: readChunk_def stopReading_def onTimeout_def onExited_def kill_def resolve_def
      Let_def split: option.splits)

lemma proc_handle_keep: "proc s \<noteq> Running \<Longrightarrow> proc (handle s e) = proc s"
  by (cases e)
    (simp_all add: readChunk_def stopReading_def onTimeout_def onExited_def kill_def resolve_def
      Let_def split: option.splits)

lemma proc_run_keep: "proc s \<noteq> Running \<Longrightarrow> proc (run s evs) = proc s"
  by (induction evs arbitrary: s) (simp_all add: run_Nil run_Cons proc_handle_keep)

lemma proc_handle_Killed:
  "proc (handle s e) = Killed \<Longrightarrow> proc s = Killed \<or> (e = Timeout \<and> \<not> urlFound s \<and> proc s = Running)"
  by (cases e)
    (auto simp: readChunk_def stopReading_def onTimeout_def onExited_def kill_def resolve_def
      Let_def split: option.splits if_splits)

lemma pending_Timeout_kills:
  "settled s = None \<Longrightarrow> reachable_inv s \<Longrightarrow>
   proc (handle s Timeout) = Killed \<and> kills (handle s Timeout) = 1 \<and> settled (handle s Timeout) = Some None"
  by (simp add: reachable_inv_def onTimeout_def kill_def resolve_def)

lemma Killed_iff:
  "proc (run init evs) = Killed \<longleftrightarrow>
   (\<exists>pre post. evs = pre @ Timeout # post \<and> settled (run init pre) = None)"
proof
  assume "proc (run init evs) = Killed"
  then show "\<exists>pre post. evs = pre @ Timeout # post \<and> settled (run init pre) = None"
  proof (induction evs rule: rev_induct)
    case Nil
    then show ?case by (simp add: run_Nil init_def)
  next
    case (snoc e evs)
    from snoc.prems have "proc (handle (run init evs) e) = Killed" by (simp add: run_snoc)
    then consider "proc (run init evs) = Killed"
      | "e = Timeout" "\<not> urlFound (run init evs)" "proc (run init evs) = Running"
      using proc_handle_Killed by blast
    then show ?case
    proof cases
      case 1
      from snoc.IH [OF this] obtain pre post where
        "evs = pre @ Timeout # post" "settled (run init pre) = None" by blast
      then have "evs @ [e] = pre @ Timeout # (post @ [e])" by simp
      with \<open>settled (run init pre) = None\<close> show ?thesis by blast
    next
      case 2
      have "settled (run init evs) = None"
        using inv_reached [of evs] 2(2,3) by (simp add: reachable_inv_def)
      with 2(1) show ?thesis by blast
    qed
  qed
next
  assume "\<exists>pre post. evs = pre @ Timeout # post \<and> settled (run init pre) = None"
  then obtain pre post where evs: "evs = pre @ Timeout # post"
    and pending: "settled (run init pre) = None" by blast
  have k: "proc (handle (run init pre) Timeout) = Killed"
    using pending_Timeout_kills [OF pending inv_reached] by simp
  then have "proc (run (handle (run init pre) Timeout) post) = Killed"
    using proc_run_keep [of "handle (run init pre) Timeout" post] by simp
  then show "proc (run init evs) = Killed"
    by (simp add: evs run_append run_Cons)
qed

text \<open>
  Claim C9. Handling an event calls \<^verbatim>\<open>proc.kill()\<close> exactly when the event is the timeout
  and no URL has been found. The subprocess ends up killed exactly when the timeout is
  handled while the promise is pending, that is when the outcome is the timeout; then the
  promise is settled with \<^verbatim>\<open>null\<close>. When the promise is settled with a URL,
  \<^verbatim>\<open>proc.kill()\<close> has not been called and the subprocess is not killed, now or later. A
  subprocess that has exited by itself stays so.
\<close>

theorem kill_on_timeout_only:
  "kills (handle s e) = kills s + (if e = Timeout \<and> \<not> urlFound s then 1 else 0)
   \<and> (proc (run init evs) = Killed \<longleftrightarrow>
        (\<exists>pre post. evs = pre @ Timeout # post \<and> settled (run init pre) = None))
   \<and> (settled (run init pre) = None \<longrightarrow>
        settled (run init (pre @ [Timeout])) = Some None
        \<and> proc (run init (pre @ [Timeout])) = Killed \<and> kills (run init (pre @ [Timeout])) = 1)
   \<and> (settled (run init evs) = Some (Some url) \<longrightarrow>
        kills (run init evs) = 0 \<and> proc (run init evs) \<noteq> Killed)
   \<and> (proc (run init pre) = ExitedByItself code \<longrightarrow>
        proc (run init (pre @ post)) = ExitedByItself code)"
proof (intro conjI impI)
  show "kills (handle s e) = kills s + (if e = Timeout \<and> \<not> urlFound s then 1 else 0)"
    by (rule kills_handle)
  show "proc (run init evs) = Killed \<longleftrightarrow>
        (\<exists>pre post. evs = pre @ Timeout # post \<and> settled (run init pre) = None)"
    by (rule Killed_iff)
next
  assume pending: "settled (run init pre) = None"
  from pending_Timeout_kills [OF pending inv_reached]
  show "settled (run init (pre @ [Timeout])) = Some None"
    and "proc (run init (pre @ [Timeout])) = Killed"
    and "kills (run init (pre @ [Timeout])) = 1"
    by (simp_all add: run_snoc)
next
  assume "settled (run init evs) = Some (Some url)"
  then show "kills (run init evs) = 0" and "proc (run init evs) \<noteq> Killed"
    using inv_reached [of evs] by (simp_all add: reachable_inv_def)
next
  assume "proc (run init pre) = ExitedByItself code"
  then show "proc (run init (pre @ post)) = ExitedByItself code"
    using proc_run_keep [of "run init pre" post] by (simp add: run_append)
qed

theorem kill_on_timeout_only_witness:
  "proc (run init ([Chunk Stderr ''INF starting''] @ [Timeout])) = Killed
   \<and> kills (run init ([Chunk Stderr ''INF starting''] @ [Timeout])) = 1
   \<and> kills (run init [Chunk Stderr ''https://a.trycloudflare.com'', Timeout]) = 0
   \<and> proc (run init [Chunk Stderr ''https://a.trycloudflare.com'', Timeout]) \<noteq> Killed
   \<and> proc (run init ([Exited 1] @ [Timeout])) = ExitedByItself 1"
proof -
  have p: "settled (run init [Chunk Stderr ''INF starting'']) = None"
    by (simp add: run_def init_def readChunk_def match_here_def Let_def)
  have f: "settled (run init [Chunk Stderr ''https://a.trycloudflare.com'', Timeout])
           = Some (Some ''https://a.trycloudflare.com'')"
    by (simp add: run_def init_def readChunk_def onTimeout_def resolve_def match_here_def
        is_label_char_def Let_def)
  have x: "proc (run init [Exited 1]) = ExitedByItself 1"
    by (simp add: run_def init_def onExited_def resolve_def Let_def)
  from kill_on_timeout_only [of _ _ _ "[Chunk Stderr ''INF starting'']"] p
  have a: "proc (run init ([Chunk Stderr ''INF starting''] @ [Timeout])) = Killed"
    and b: "kills (run init ([Chunk Stderr ''INF starting''] @ [Timeout])) = 1"
    by blast+
  from kill_on_timeout_only [of _ _ "[Chunk Stderr ''https://a.trycloudflare.com'', Timeout]" _
      "''https://a.trycloudflare.com''"] f
  have c: "kills (run init [Chunk Stderr ''https://a.trycloudflare.com'', Timeout]) = 0"
    and d: "proc (run init [Chunk Stderr ''https://a.trycloudflare.com'', Timeout]) \<noteq> Killed"
    by blast+
  from kill_on_timeout_only [of _ _ _ "[Exited 1]" _ 1 "[Timeout]"] x
  have e: "proc (run init ([Exited 1] @ [Timeout])) = ExitedByItself 1"
    by blast
  from a b c d e show ?thesis by (simp only: simp_thms)
qed

text \<open>
  The timer is not cleared when the subprocess exits first: the timeout handler still
  runs, prints its line and calls \<^verbatim>\<open>proc.kill()\<close> on the subprocess that has exited.
\<close>

theorem timer_outlives_exit:
  "settled (run init [Exited 1, Timeout]) = Some None
   \<and> proc (run init [Exited 1, Timeout]) = ExitedByItself 1
   \<and> kills (run init [Exited 1, Timeout]) = 1
   \<and> errors (run init [Exited 1, Timeout])
       = [''CloudFlare tunnel process exited unexpectedly'', ''Timeout waiting for CloudFlare tunnel URL'']"
  by (simp add: run_def init_def onExited_def onTimeout_def kill_def resolve_def Let_def)

end
